theory Spec2Isabelle
  imports Main "HOL-Library.AList"
begin

section \<open>Strings\<close>

text \<open>
  Python strings are modelled as lists of \<^typ>\<open>char\<close>, each \<^typ>\<open>char\<close> standing for
  one code point below 256.  On that range the whitespace of \<^verbatim>\<open>str.split()\<close> and
  \<^verbatim>\<open>str.strip()\<close>, the digits of \<^verbatim>\<open>\d\<close> and the letters that \<^verbatim>\<open>re.I\<close>
  identifies with an ASCII letter are exactly the ones listed below.
\<close>

definition is_space :: "char \<Rightarrow> bool" where
  "is_space c = (c \<in> set [CHR 0x09, CHR 0x0A, CHR 0x0B, CHR 0x0C, CHR 0x0D,
                             CHR 0x1C, CHR 0x1D, CHR 0x1E, CHR 0x1F, CHR 0x20,
                             CHR 0x85, CHR 0xA0])"

definition is_digit :: "char \<Rightarrow> bool" where
  "is_digit c = (c \<in> set ''0123456789'')"

definition lower :: "char \<Rightarrow> char" where
  "lower c =
     (case map_of (zip ''ABCDEFGHIJKLMNOPQRSTUVWXYZ'' ''abcdefghijklmnopqrstuvwxyz'') c of
        Some l \<Rightarrow> l
      | None \<Rightarrow> c)"

text \<open>\<^verbatim>\<open>text.split()\<close>: the maximal runs of non-whitespace characters, in order.\<close>

function split_ws :: "string \<Rightarrow> string list" where
  "split_ws s =
     (case dropWhile is_space s of
        [] \<Rightarrow> []
      | c # cs \<Rightarrow> takeWhile (\<lambda>x. \<not> is_space x) (c # cs)
                  # split_ws (dropWhile (\<lambda>x. \<not> is_space x) (c # cs)))"
  by pat_completeness auto
termination
proof (relation "measure length", goal_cases)
  case 1
  show ?case by simp
next
  case (2 s c cs)
  have "length (dropWhile (\<lambda>x. \<not> is_space x) (c # cs)) \<le> length cs"
    using hd_dropWhile [of is_space s] 2 by (simp add: length_dropWhile_le)
  moreover have "length (c # cs) \<le> length s"
    using length_dropWhile_le [of is_space s] 2 by simp
  ultimately show ?case by simp
qed

declare split_ws.simps [simp del]

text \<open>\<^verbatim>\<open>sep.join(xs)\<close>\<close>

fun join :: "string \<Rightarrow> string list \<Rightarrow> string" where
  "join sep [] = []"
| "join sep [x] = x"
| "join sep (x # y # ys) = x @ sep @ join sep (y # ys)"

text \<open>\<^verbatim>\<open>text.strip()\<close>\<close>

definition strip :: "string \<Rightarrow> string" where
  "strip s = rev (dropWhile is_space (rev (dropWhile is_space s)))"

text \<open>
  \<^verbatim>\<open>_clean_text\<close>.  Every caller passes the \<^verbatim>\<open>.text\<close> of a tag, which is a string,
  so \<^verbatim>\<open>not text\<close> is the test for the empty string.
\<close>

definition clean_text :: "string \<Rightarrow> string" where
  "clean_text text =
     (if text = [] then ''N/A''
      else (let text = join '' '' (split_ws text) in strip text))"

subsection \<open>What it means for a string to be normalised\<close>

definition is_word :: "string \<Rightarrow> bool" where
  "is_word w = (w \<noteq> [] \<and> (\<forall>c\<in>set w. \<not> is_space c))"

definition trimmed :: "string \<Rightarrow> bool" where
  "trimmed s = (s = [] \<or> (\<not> is_space (hd s) \<and> \<not> is_space (last s)))"

fun no_ws_run :: "string \<Rightarrow> bool" where
  "no_ws_run (a # b # cs) = (\<not> (is_space a \<and> is_space b) \<and> no_ws_run (b # cs))"
| "no_ws_run _ = True"

definition normalized :: "string \<Rightarrow> bool" where
  "normalized s = (trimmed s \<and> no_ws_run s)"

section \<open>The parsed document\<close>

text \<open>
  A \<^verbatim>\<open>BeautifulSoup\<close> tree.  A tag has a name, its attribute dictionary (an association
  list with distinct keys, every value the string the parser read) and its contents; a
  \<^verbatim>\<open>NavigableString\<close> is a piece of text.  The document object is itself a
  tag, named \<^verbatim>\<open>[document]\<close>.  Comments, and the other strings that \<^verbatim>\<open>.text\<close>
  passes over, are left out of the tree: no function of the scraper reads them.
\<close>

datatype node = Tag string "(string \<times> string) list" "node list" | NavigableString string

text \<open>\<^verbatim>\<open>tag.text\<close>: all strings below the tag, concatenated in document order.\<close>

fun text_of :: "node \<Rightarrow> string" where
  "text_of (NavigableString s) = s"
| "text_of (Tag n as cs) = concat (map text_of cs)"

fun attrs :: "node \<Rightarrow> (string \<times> string) list" where
  "attrs (Tag n as cs) = as"
| "attrs (NavigableString s) = []"

text \<open>
  The tags among a list of sibling nodes and below them, in document order, each paired
  with the siblings that follow it (what \<^verbatim>\<open>find_next_sibling\<close> walks through).
\<close>

fun elements :: "node list \<Rightarrow> (node \<times> node list) list" where
  "elements [] = []"
| "elements (NavigableString s # sibs) = elements sibs"
| "elements (Tag n as cs # sibs) = (Tag n as cs, sibs) # elements cs @ elements sibs"

fun descendants :: "node \<Rightarrow> (node \<times> node list) list" where
  "descendants (Tag n as cs) = elements cs"
| "descendants (NavigableString s) = []"

subsection \<open>Search criteria\<close>

text \<open>
  A value to match an attribute against: a plain string, which has to be equal, or a
  compiled pattern \<^verbatim>\<open>re.compile('a|b', re.I)\<close> of literal alternatives, which has to
  occur somewhere in the value, letter case ignored (\<^verbatim>\<open>pattern.search\<close>).
\<close>

datatype criterion = Exact string | Regex_I "string list"

fun occurs_in :: "string \<Rightarrow> string \<Rightarrow> bool" where
  "occurs_in p [] = (p = [])"
| "occurs_in p (c # cs) = (take (length p) (c # cs) = p \<or> occurs_in p cs)"

fun matches :: "string \<Rightarrow> criterion \<Rightarrow> bool" where
  "matches markup (Exact s) = (markup = s)"
| "matches markup (Regex_I alts) =
     list_ex (\<lambda>p. occurs_in (map lower p) (map lower markup)) alts"

text \<open>
  One entry of the \<^verbatim>\<open>attrs\<close> dictionary given to \<^verbatim>\<open>find\<close>.  A missing attribute
  never matches.  The parser keeps \<^verbatim>\<open>class\<close> as the list of its whitespace-separated
  tokens: it matches when one token does, or the tokens joined by single spaces do.
\<close>

definition attr_matches :: "(string \<times> string) list \<Rightarrow> string \<Rightarrow> criterion \<Rightarrow> bool" where
  "attr_matches as key crit =
     (case map_of as key of
        None \<Rightarrow> False
      | Some v \<Rightarrow>
          if key = ''class''
          then list_ex (\<lambda>item. matches item crit) (split_ws v)
               \<or> matches (join '' '' (split_ws v)) crit
          else matches v crit)"

fun tag_matches :: "string \<Rightarrow> (string \<times> criterion) list \<Rightarrow> node \<Rightarrow> bool" where
  "tag_matches nm crits (Tag n as cs) =
     (n = nm \<and> list_all (\<lambda>(key, crit). attr_matches as key crit) crits)"
| "tag_matches nm crits (NavigableString s) = False"

text \<open>\<^verbatim>\<open>find_all(name, attrs)\<close>, keeping the following siblings of each hit.\<close>

definition find_all_located ::
  "string \<Rightarrow> (string \<times> criterion) list \<Rightarrow> node \<Rightarrow> (node \<times> node list) list" where
  "find_all_located nm crits root =
     filter (\<lambda>(e, sibs). tag_matches nm crits e) (descendants root)"

definition find_all :: "string \<Rightarrow> (string \<times> criterion) list \<Rightarrow> node \<Rightarrow> node list" where
  "find_all nm crits root = map fst (find_all_located nm crits root)"

text \<open>\<^verbatim>\<open>find(name, attrs)\<close>: the first hit of \<^verbatim>\<open>find_all\<close>, or \<^verbatim>\<open>None\<close>.\<close>

definition find_tag :: "string \<Rightarrow> (string \<times> criterion) list \<Rightarrow> node \<Rightarrow> node option" where
  "find_tag nm crits root = (case find_all nm crits root of [] \<Rightarrow> None | t # _ \<Rightarrow> Some t)"

text \<open>
  \<^verbatim>\<open>tag.find_next_sibling()\<close>, called without a criterion: the first tag among the
  following siblings, strings passed over.
\<close>

fun find_next_sibling :: "node list \<Rightarrow> node option" where
  "find_next_sibling [] = None"
| "find_next_sibling (Tag n as cs # sibs) = Some (Tag n as cs)"
| "find_next_sibling (NavigableString s # sibs) = find_next_sibling sibs"

text \<open>\<^verbatim>\<open>re.search(r'InmateID=(\d+)', href)\<close>, giving \<^verbatim>\<open>group(1)\<close> of the match.\<close>

definition match_inmate_id_here :: "string \<Rightarrow> string option" where
  "match_inmate_id_here s =
     (if take 9 s = ''InmateID='' \<and> takeWhile is_digit (drop 9 s) \<noteq> []
      then Some (takeWhile is_digit (drop 9 s))
      else None)"

fun search_inmate_id :: "string \<Rightarrow> string option" where
  "search_inmate_id [] = None"
| "search_inmate_id (c # cs) =
     (case match_inmate_id_here (c # cs) of
        Some ident \<Rightarrow> Some ident
      | None \<Rightarrow> search_inmate_id cs)"

section \<open>The scraper\<close>

text \<open>
  A Python dictionary with string keys is an association list in insertion order;
  \<^verbatim>\<open>d[k] = v\<close> is \<^const>\<open>AList.update\<close>, which replaces the value of an existing key
  in place and appends a new key at the end.
\<close>

type_synonym form_data = "(string \<times> string) list"
type_synonym inmate = "(string \<times> string) list"

datatype detail_value = Text string | Charges "string list"

type_synonym details = "(string \<times> detail_value) list"

text \<open>\<^verbatim>\<open>_get_form_data\<close>\<close>

definition get_form_data :: "node \<Rightarrow> form_data" where
  "get_form_data soup =
     (let form_data = [];
          viewstate = find_tag ''input'' [(''name'', Exact ''__VIEWSTATE'')] soup;
          form_data = (case viewstate of
                         Some t \<Rightarrow> AList.update ''__VIEWSTATE''
                                     (case map_of (attrs t) ''value'' of Some v \<Rightarrow> v | None \<Rightarrow> '''')
                                     form_data
                       | None \<Rightarrow> form_data);
          viewstate_gen = find_tag ''input'' [(''name'', Exact ''__VIEWSTATEGENERATOR'')] soup;
          form_data = (case viewstate_gen of
                         Some t \<Rightarrow> AList.update ''__VIEWSTATEGENERATOR''
                                     (case map_of (attrs t) ''value'' of Some v \<Rightarrow> v | None \<Rightarrow> '''')
                                     form_data
                       | None \<Rightarrow> form_data);
          event_val = find_tag ''input'' [(''name'', Exact ''__EVENTVALIDATION'')] soup;
          form_data = (case event_val of
                         Some t \<Rightarrow> AList.update ''__EVENTVALIDATION''
                                     (case map_of (attrs t) ''value'' of Some v \<Rightarrow> v | None \<Rightarrow> '''')
                                     form_data
                       | None \<Rightarrow> form_data)
      in form_data)"

text \<open>Lines 40 to 46 of \<^verbatim>\<open>search_inmates\<close>: the body of the POST request.\<close>

definition search_form_data :: "node \<Rightarrow> string \<Rightarrow> string \<Rightarrow> string \<Rightarrow> form_data" where
  "search_form_data soup last_name first_name booking_number =
     (let form_data = get_form_data soup;
          form_data = AList.update ''txtLastName'' last_name form_data;
          form_data = AList.update ''txtFirstName'' first_name form_data;
          form_data = AList.update ''txtBookingNumber'' booking_number form_data;
          form_data = AList.update ''btnSearch'' ''Search'' form_data
      in form_data)"

text \<open>
  \<^verbatim>\<open>_parse_results\<close>, in four parts: \<open>results_table\<close> is the lookup of lines 106 to
  108; \<open>cell_text\<close> is one conditional of the dictionary literal; \<open>row_inmate\<close> is the body
  of the branch \<^verbatim>\<open>if len(cells) >= 3\<close>, so it reads \<^verbatim>\<open>cells[0]\<close> only where the row
  has a first cell; \<open>rows_loop\<close> is the loop, with the list \<^verbatim>\<open>inmates\<close> passed along.
\<close>

definition results_table :: "node \<Rightarrow> node option" where
  "results_table soup =
     (case find_tag ''table'' [(''id'', Regex_I [''GridView''])] soup of
        Some table \<Rightarrow> Some table
      | None \<Rightarrow> find_tag ''table'' [(''class'', Regex_I [''grid'', ''result''])] soup)"

definition cell_text :: "node list \<Rightarrow> nat \<Rightarrow> string" where
  "cell_text cells i = (if length cells > i then clean_text (text_of (cells ! i)) else ''N/A'')"

definition row_inmate :: "node list \<Rightarrow> inmate" where
  "row_inmate cells =
     (let inmate = [(''name'', cell_text cells 0),
                    (''booking_number'', cell_text cells 1),
                    (''booking_date'', cell_text cells 2),
                    (''age'', cell_text cells 3),
                    (''gender'', cell_text cells 4),
                    (''race'', cell_text cells 5),
                    (''facility'', ''Sedgwick County Jail''),
                    (''source'', ''sedgwick_county'')]
      in case find_tag ''a'' [] (cells ! 0) of
           None \<Rightarrow> inmate
         | Some link \<Rightarrow>
             (case map_of (attrs link) ''href'' of
                None \<Rightarrow> inmate
              | Some href \<Rightarrow>
                  (case search_inmate_id href of
                     None \<Rightarrow> inmate
                   | Some ident \<Rightarrow> AList.update ''inmate_id'' ident inmate)))"

fun rows_loop :: "node list \<Rightarrow> inmate list \<Rightarrow> inmate list" where
  "rows_loop [] inmates = inmates"
| "rows_loop (row # rows) inmates =
     (let cells = find_all ''td'' [] row
      in if length cells \<ge> 3
         then rows_loop rows (inmates @ [row_inmate cells])
         else rows_loop rows inmates)"

definition parse_results :: "node \<Rightarrow> inmate list" where
  "parse_results soup =
     (case results_table soup of
        Some table \<Rightarrow> rows_loop (drop 1 (find_all ''tr'' [] table)) []
      | None \<Rightarrow> [])"

text \<open>
  \<^verbatim>\<open>_parse_inmate_details\<close>: \<open>labels_loop\<close> is the loop over the labels, each label
  coming with its following siblings, and \<open>charges_loop\<close> the loop over the rows of the
  charges table; the dictionary and the list they build are passed along.
\<close>

fun labels_loop :: "(node \<times> node list) list \<Rightarrow> details \<Rightarrow> details" where
  "labels_loop [] details = details"
| "labels_loop ((label, sibs) # labels) details =
     (let label_text = clean_text (text_of label)
      in case find_next_sibling sibs of
           Some value_elem \<Rightarrow>
             labels_loop labels
               (AList.update label_text (Text (clean_text (text_of value_elem))) details)
         | None \<Rightarrow> labels_loop labels details)"

fun charges_loop :: "node list \<Rightarrow> string list \<Rightarrow> string list" where
  "charges_loop [] charges = charges"
| "charges_loop (row # rows) charges =
     (let cells = find_all ''td'' [] row
      in if cells \<noteq> []
         then charges_loop rows (charges @ [join '' '' (map (\<lambda>c. clean_text (text_of c)) cells)])
         else charges_loop rows charges)"

definition parse_inmate_details :: "node \<Rightarrow> details" where
  "parse_inmate_details soup =
     (let details = labels_loop
                      (find_all_located ''span'' [(''class'', Regex_I [''label''])] soup) []
      in case find_tag ''table'' [(''id'', Regex_I [''Charges''])] soup of
           Some charges_table \<Rightarrow>
             AList.update ''charges''
               (Charges (charges_loop (drop 1 (find_all ''tr'' [] charges_table)) []))
               details
         | None \<Rightarrow> details)"

subsection \<open>The two public operations\<close>

text \<open>
  An exception is a value; \<^verbatim>\<open>Exception msg\<close> stands for an instance of any subclass of
  Python's \<^verbatim>\<open>Exception\<close>.  The site is a parameter: \<^verbatim>\<open>http_get url\<close> is what
  \<^verbatim>\<open>session.get\<close> followed by \<^verbatim>\<open>BeautifulSoup(response.content, 'html.parser')\<close>
  does, either raising or giving the parsed document, and \<^verbatim>\<open>http_post url data\<close> the same
  for \<^verbatim>\<open>session.post\<close>.  The calls to \<^verbatim>\<open>print\<close> are left out.
\<close>

datatype exn = Exception string

record site =
  http_get :: "string \<Rightarrow> exn + node"
  http_post :: "string \<Rightarrow> form_data \<Rightarrow> exn + node"

definition base_url :: string where
  "base_url = ''https://ssc.sedgwickcounty.org/inmatesearch''"

text \<open>\<^verbatim>\<open>try: body except Exception as e: handler\<close>\<close>

definition try_except :: "exn + 'a \<Rightarrow> (exn \<Rightarrow> exn + 'a) \<Rightarrow> exn + 'a" where
  "try_except body handler = (case body of Inl e \<Rightarrow> handler e | Inr v \<Rightarrow> Inr v)"

definition search_inmates_body :: "site \<Rightarrow> string \<Rightarrow> string \<Rightarrow> string \<Rightarrow> exn + inmate list" where
  "search_inmates_body s last_name first_name booking_number =
     (let search_url = base_url @ ''/SearchResults.aspx''
      in case http_get s base_url of
           Inl e \<Rightarrow> Inl e
         | Inr soup \<Rightarrow>
             (let form_data = search_form_data soup last_name first_name booking_number
              in case http_post s search_url form_data of
                   Inl e \<Rightarrow> Inl e
                 | Inr results_soup \<Rightarrow>
                     (let inmates = parse_results results_soup in Inr inmates)))"


definition get_inmate_details_body :: "site \<Rightarrow> string \<Rightarrow> exn + details option" where
  "get_inmate_details_body s inmate_id =
     (let detail_url = base_url @ ''/InmateDetail.aspx?InmateID='' @ inmate_id
      in case http_get s detail_url of
           Inl e \<Rightarrow> Inl e
         | Inr soup \<Rightarrow> (let details = parse_inmate_details soup in Inr (Some details)))"

definition get_inmate_details :: "site \<Rightarrow> string \<Rightarrow> exn + details option" where
  "get_inmate_details s inmate_id =
     try_except (get_inmate_details_body s inmate_id) (\<lambda>e. Inr None)"

section \<open>Predicates used in the statements\<close>

text \<open>
  An attribute value contains a word, letter case ignored; a tag has an id containing a
  word; a tag has a class token containing a word.
\<close>

definition contains_ci :: "string \<Rightarrow> string \<Rightarrow> bool" where
  "contains_ci word v = occurs_in (map lower word) (map lower v)"

definition id_has :: "string \<Rightarrow> node \<Rightarrow> bool" where
  "id_has word t = (case map_of (attrs t) ''id'' of None \<Rightarrow> False | Some v \<Rightarrow> contains_ci word v)"

definition class_has :: "string \<Rightarrow> node \<Rightarrow> bool" where
  "class_has word t =
     (case map_of (attrs t) ''class'' of
        None \<Rightarrow> False
      | Some v \<Rightarrow> list_ex (contains_ci word) (split_ws v))"


section \<open>Example documents\<close>



definition bare_page :: node where
  "bare_page = Tag ''[document]'' []
     [Tag ''div'' [(''class'', ''content'')] [NavigableString ''No record found.'']]"

definition site_bare :: site where
  "site_bare = \<lparr>http_get = (\<lambda>url. Inr bare_page), http_post = (\<lambda>url data. Inr bare_page)\<rparr>"

definition form_page :: node where
  "form_page = Tag ''[document]'' []
     [Tag ''form'' [(''method'', ''post'')]
        [Tag ''input'' [(''type'', ''hidden''), (''name'', ''__VIEWSTATE''), (''value'', ''dDwt'')] [],
         Tag ''input'' [(''type'', ''hidden''), (''name'', ''__EVENTVALIDATION'')] [],
         Tag ''input'' [(''type'', ''text''), (''name'', ''txtLastName'')] []]]"

definition site_form :: site where
  "site_form = \<lparr>http_get = (\<lambda>url. Inr form_page), http_post = (\<lambda>url data. Inr bare_page)\<rparr>"

definition doe_row :: node where
  "doe_row = Tag ''tr'' []
     [Tag ''td'' [] [Tag ''a'' [(''href'', ''InmateDetail.aspx?InmateID=123&x=1'')]
                               [NavigableString '' DOE,  JOHN '']],
      Tag ''td'' [] [NavigableString ''B1''],
      Tag ''td'' [] []]"


definition poe_row :: node where
  "poe_row = Tag ''tr'' []
     [Tag ''td'' [] [NavigableString ''POE, ANN''],
      Tag ''td'' [] [NavigableString ''B2''],
      Tag ''td'' [] [NavigableString ''2024-01-05''],
      Tag ''td'' [] [NavigableString ''41'']]"

definition header_row :: node where
  "header_row = Tag ''tr'' [] [Tag ''th'' [] [NavigableString ''Name''],
                              Tag ''th'' [] [NavigableString ''Booking #''],
                              Tag ''th'' [] [NavigableString ''Date'']]"

definition grid_table :: "node list \<Rightarrow> node" where
  "grid_table rows =
     Tag ''table'' [(''id'', ''ctl00_GridView1''), (''class'', ''tbl'')] (header_row # rows)"

definition results_page :: "node list \<Rightarrow> node" where
  "results_page rows = Tag ''[document]'' [] [Tag ''h1'' [] [NavigableString ''Results''],
                                              grid_table rows]"

definition grid_id_page :: node where
  "grid_id_page = Tag ''[document]'' []
     [Tag ''table'' [(''id'', ''ResultsGrid'')] [header_row, poe_row]]"

definition class_page :: node where
  "class_page = Tag ''[document]'' []
     [Tag ''table'' [(''id'', ''layout'')] [Tag ''tr'' [] [Tag ''td'' [] []]],
      Tag ''table'' [(''class'', ''tbl SearchResults'')] [header_row, poe_row]]"









definition charges_table :: "node list \<Rightarrow> node" where
  "charges_table rows = Tag ''table'' [(''id'', ''tblCharges'')] rows"







section \<open>Properties of the text helper\<close>

lemma split_ws_Nil: "dropWhile is_space s = [] \<Longrightarrow> split_ws s = []"
  by (subst split_ws.simps) (simp del: dropWhile_eq_Nil_conv)

lemma split_ws_Cons:
  "dropWhile is_space s = c # cs \<Longrightarrow>
   split_ws s = takeWhile (\<lambda>x. \<not> is_space x) (c # cs)
                # split_ws (dropWhile (\<lambda>x. \<not> is_space x) (c # cs))"
  by (subst split_ws.simps) simp

lemma split_ws_all_space: "(\<forall>c\<in>set s. is_space c) \<Longrightarrow> split_ws s = []"
  by (rule split_ws_Nil) simp

lemma split_ws_Nil_iff: "split_ws s = [] \<longleftrightarrow> (\<forall>c\<in>set s. is_space c)"
proof
  assume "split_ws s = []"
  then have "dropWhile is_space s = []"
    by (cases "dropWhile is_space s") (simp_all add: split_ws_Cons)
  then show "\<forall>c\<in>set s. is_space c" by simp
qed (rule split_ws_all_space)

lemma split_ws_words: "w \<in> set (split_ws s) \<Longrightarrow> is_word w"
proof (induction s rule: split_ws.induct)
  case (1 s)
  show ?case
  proof (cases "dropWhile is_space s")
    case Nil
    then have "split_ws s = []" by (rule split_ws_Nil)
    with 1 show ?thesis by simp
  next
    case (Cons c cs)
    have c: "\<not> is_space c" using hd_dropWhile [of is_space s] Cons by simp
    have eq: "split_ws s = takeWhile (\<lambda>x. \<not> is_space x) (c # cs)
                # split_ws (dropWhile (\<lambda>x. \<not> is_space x) (c # cs))"
      using Cons by (rule split_ws_Cons)
    from 1(2) eq consider "w = takeWhile (\<lambda>x. \<not> is_space x) (c # cs)"
      | "w \<in> set (split_ws (dropWhile (\<lambda>x. \<not> is_space x) (c # cs)))" by auto
    then show ?thesis
    proof cases
      case 1
      then show ?thesis using c by (auto simp: is_word_def dest: set_takeWhileD)
    next
      case 2
      then show ?thesis using "1.IH" [OF Cons] by simp
    qed
  qed
qed

lemma split_ws_word_Cons:
  assumes "is_word w" and "r = [] \<or> is_space (hd r)"
  shows "split_ws (w @ r) = w # split_ws r"
proof -
  obtain c cs where w: "w = c # cs" using assms(1) by (cases w) (auto simp: is_word_def)
  have ns: "\<forall>x\<in>set w. \<not> is_space x" using assms(1) by (simp add: is_word_def)
  have d: "dropWhile is_space (w @ r) = w @ r" using w ns by simp
  have t: "takeWhile (\<lambda>x. \<not> is_space x) (w @ r) = w"
    using ns assms(2) by (cases r) (auto simp: takeWhile_append)
  have dr: "dropWhile (\<lambda>x. \<not> is_space x) (w @ r) = r"
    using ns assms(2) by (cases r) (auto simp: dropWhile_append)
  have "split_ws (w @ r) = takeWhile (\<lambda>x. \<not> is_space x) (c # cs @ r)
          # split_ws (dropWhile (\<lambda>x. \<not> is_space x) (c # cs @ r))"
    using d w by (intro split_ws_Cons) simp
  then show ?thesis using t dr w by simp
qed

lemma split_ws_space_Cons: "is_space c \<Longrightarrow> split_ws (c # s) = split_ws s"
proof (cases "dropWhile is_space s")
  case Nil
  assume "is_space c"
  with Nil show ?thesis by (simp add: split_ws_Nil)
next
  case (Cons d ds)
  assume "is_space c"
  with Cons have "dropWhile is_space (c # s) = d # ds" by simp
  then show ?thesis using Cons by (simp only: split_ws_Cons)
qed

lemma split_ws_join: "\<forall>w\<in>set ws. is_word w \<Longrightarrow> split_ws (join '' '' ws) = ws"
proof (induction "'' ''" ws rule: join.induct)
  case 1
  show ?case by (simp add: split_ws_all_space)
next
  case (2 x)
  then show ?case using split_ws_word_Cons [of x "[]"] by (simp add: split_ws_all_space)
next
  case (3 x y ys)
  have sp: "is_space CHR '' ''" by (simp add: is_space_def)
  have "split_ws (x @ '' '' @ join '' '' (y # ys)) = x # split_ws ('' '' @ join '' '' (y # ys))"
    using 3 by (intro split_ws_word_Cons) (simp_all add: sp)
  also have "split_ws ('' '' @ join '' '' (y # ys)) = split_ws (join '' '' (y # ys))"
    using sp by (simp add: split_ws_space_Cons)
  finally show ?case using 3 by simp
qed

lemma join_Nil_iff: "\<forall>p\<in>set ps. p \<noteq> [] \<Longrightarrow> join sep ps = [] \<longleftrightarrow> ps = []"
  by (induction sep ps rule: join.induct) auto

lemma no_ws_run_append:
  "no_ws_run xs \<Longrightarrow> no_ws_run ys \<Longrightarrow>
   (xs \<noteq> [] \<Longrightarrow> ys \<noteq> [] \<Longrightarrow> \<not> (is_space (last xs) \<and> is_space (hd ys))) \<Longrightarrow>
   no_ws_run (xs @ ys)"
proof (induction xs rule: no_ws_run.induct)
  case (1 a b cs)
  then show ?case by auto
qed (cases ys, simp_all)+

lemma no_ws_run_Cons:
  "no_ws_run ys \<Longrightarrow> (ys \<noteq> [] \<Longrightarrow> \<not> (is_space a \<and> is_space (hd ys))) \<Longrightarrow> no_ws_run (a # ys)"
  by (cases ys) auto

lemma normalized_join:
  "\<forall>p\<in>set ps. p \<noteq> [] \<and> normalized p \<Longrightarrow> normalized (join '' '' ps)"
proof (induction "'' ''" ps rule: join.induct)
  case 1
  show ?case by (simp add: normalized_def trimmed_def)
next
  case (2 x)
  then show ?case by simp
next
  case (3 x y ys)
  let ?r = "join '' '' (y # ys)"
  have r: "normalized ?r" using 3 by simp
  have rne: "?r \<noteq> []" using 3(2) join_Nil_iff [of "y # ys" "'' ''"] by simp
  have x: "x \<noteq> []" "normalized x" using 3(2) by simp_all
  have hr: "\<not> is_space (hd ?r)" and lr: "\<not> is_space (last ?r)" and nr: "no_ws_run ?r"
    using r rne by (simp_all add: normalized_def trimmed_def)
  have hx: "\<not> is_space (hd x)" and lx: "\<not> is_space (last x)" and nx: "no_ws_run x"
    using x by (simp_all add: normalized_def trimmed_def)
  have "no_ws_run (CHR '' '' # ?r)"
    using nr hr by (intro no_ws_run_Cons) simp_all
  then have "no_ws_run (x @ CHR '' '' # ?r)"
    using nx lx by (intro no_ws_run_append) simp_all
  moreover have "trimmed (x @ CHR '' '' # ?r)"
    using x(1) rne hx lr by (simp add: trimmed_def)
  ultimately show ?case by (simp add: normalized_def)
qed

lemma is_word_normalized: "is_word w \<Longrightarrow> w \<noteq> [] \<and> normalized w"
proof -
  have "(\<forall>c\<in>set w. \<not> is_space c) \<Longrightarrow> no_ws_run w"
    by (induction w rule: no_ws_run.induct) auto
  moreover assume "is_word w"
  ultimately show ?thesis by (auto simp: is_word_def normalized_def trimmed_def)
qed

lemma strip_trimmed: "trimmed s \<Longrightarrow> strip s = s"
proof (cases s)
  case Nil
  then show ?thesis by (simp add: strip_def)
next
  case (Cons c cs)
  assume "trimmed s"
  with Cons have h: "\<not> is_space (hd s)" and l: "\<not> is_space (last s)" by (auto simp: trimmed_def)
  have "dropWhile is_space s = s" using h by (simp add: dropWhile_eq_self_iff)
  moreover have "dropWhile is_space (rev s) = rev s"
    using l by (simp only: dropWhile_eq_self_iff hd_rev) simp
  ultimately show ?thesis by (simp add: strip_def)
qed

lemma clean_text_join: "s \<noteq> [] \<Longrightarrow> clean_text s = join '' '' (split_ws s)"
proof -
  have "normalized (join '' '' (split_ws s))"
    by (intro normalized_join) (auto dest: split_ws_words is_word_normalized)
  then show "s \<noteq> [] \<Longrightarrow> ?thesis"
    by (simp add: clean_text_def strip_trimmed normalized_def)
qed

lemma normalized_clean_text: "normalized (clean_text s)"
proof (cases "s = []")
  case True
  then show ?thesis by (simp add: clean_text_def normalized_def trimmed_def is_space_def)
next
  case False
  have "normalized (join '' '' (split_ws s))"
    by (intro normalized_join) (auto dest: split_ws_words is_word_normalized)
  with False show ?thesis by (simp add: clean_text_join)
qed

lemma set_join: "set (join sep ps) \<subseteq> set sep \<union> \<Union> (set ` set ps)"
  by (induction sep ps rule: join.induct) auto

lemma clean_text_Nil: "clean_text [] = ''N/A''"
  by (simp add: clean_text_def)

lemma clean_text_sentinel: "clean_text ''N/A'' = ''N/A''"
  by (simp add: clean_text_def split_ws.simps [of "''N/A''"] split_ws.simps [of "[]"]
      is_space_def strip_def)

lemma clean_text_blank: "s \<noteq> [] \<Longrightarrow> \<forall>c\<in>set s. is_space c \<Longrightarrow> clean_text s = []"
  by (simp add: clean_text_join split_ws_all_space)

lemma clean_text_nonblank:
  assumes "\<exists>c\<in>set s. \<not> is_space c"
  shows "clean_text s \<noteq> []" and "clean_text (clean_text s) = clean_text s"
proof -
  from assms have ne: "s \<noteq> []" by auto
  have ws: "split_ws s \<noteq> []" using assms by (simp add: split_ws_Nil_iff)
  have words: "\<forall>w\<in>set (split_ws s). is_word w" by (auto dest: split_ws_words)
  then have "\<forall>w\<in>set (split_ws s). w \<noteq> []" by (simp add: is_word_def)
  then show c: "clean_text s \<noteq> []"
    using ws ne by (simp add: clean_text_join join_Nil_iff)
  have "clean_text (clean_text s) = join '' '' (split_ws (clean_text s))"
    using c by (rule clean_text_join)
  also have "split_ws (clean_text s) = split_ws s"
    using ne words by (simp add: clean_text_join split_ws_join)
  finally show "clean_text (clean_text s) = clean_text s" using ne by (simp add: clean_text_join)
qed

text \<open>
  C8 (as amended).  \<^const>\<open>clean_text\<close> applied twice gives the same as applied once
  exactly for the inputs that are empty or hold a non-whitespace character; a non-empty
  input made of whitespace only is sent to the empty string, and the empty string to the
  sentinel.  For every input the result has no leading or trailing whitespace and no two
  adjacent whitespace characters, its only whitespace character is the plain space, and for
  a non-empty input its words are the words of the input, in order.
\<close>

theorem clean_text_idempotent_iff:
  "(clean_text (clean_text s) = clean_text s \<longleftrightarrow> s = [] \<or> (\<exists>c\<in>set s. \<not> is_space c))
   \<and> normalized (clean_text s)
   \<and> (\<forall>c\<in>set (clean_text s). is_space c \<longrightarrow> c = CHR '' '')
   \<and> (s \<noteq> [] \<longrightarrow> split_ws (clean_text s) = split_ws s)"
proof (intro conjI)
  show "clean_text (clean_text s) = clean_text s \<longleftrightarrow> s = [] \<or> (\<exists>c\<in>set s. \<not> is_space c)"
  proof (cases "s = []")
    case True
    then show ?thesis by (simp add: clean_text_Nil clean_text_sentinel)
  next
    case ne: False
    show ?thesis
    proof (cases "\<exists>c\<in>set s. \<not> is_space c")
      case True
      then show ?thesis using clean_text_nonblank(2) [of s] by simp
    next
      case False
      then have "clean_text s = []" using ne by (intro clean_text_blank) simp_all
      then show ?thesis using False ne by (simp add: clean_text_Nil)
    qed
  qed
next
  show "normalized (clean_text s)" by (rule normalized_clean_text)
next
  show "\<forall>c\<in>set (clean_text s). is_space c \<longrightarrow> c = CHR '' ''"
  proof (cases "s = []")
    case True
    then show ?thesis by (simp add: clean_text_Nil is_space_def)
  next
    case False
    have "\<And>c w. w \<in> set (split_ws s) \<Longrightarrow> c \<in> set w \<Longrightarrow> \<not> is_space c"
      using split_ws_words by (auto simp: is_word_def)
    then show ?thesis
      using False set_join [of "'' ''" "split_ws s"] by (auto simp: clean_text_join)
  qed
next
  show "s \<noteq> [] \<longrightarrow> split_ws (clean_text s) = split_ws s"
    using split_ws_words by (auto simp: clean_text_join split_ws_join)
qed

theorem clean_text_idempotent_iff_witness:
  "clean_text (clean_text ''  J.  DOE '') = clean_text ''  J.  DOE ''
   \<and> clean_text ''  J.  DOE '' = ''J. DOE''
   \<and> normalized (clean_text ''  J.  DOE '')
   \<and> split_ws (clean_text ''  J.  DOE '') = split_ws ''  J.  DOE ''"
proof -
  have ne: "''  J.  DOE '' \<noteq> []" by simp
  have nb: "\<exists>c\<in>set ''  J.  DOE ''. \<not> is_space c" by (simp add: is_space_def)
  have v: "clean_text ''  J.  DOE '' = ''J. DOE''" by code_simp
  show ?thesis
    using clean_text_idempotent_iff [of "''  J.  DOE ''"] ne nb v by simp
qed

theorem clean_text_not_idempotent_counterexample:
  "clean_text '' '' = [] \<and> clean_text (clean_text '' '') = ''N/A''
   \<and> clean_text (clean_text '' '') \<noteq> clean_text '' ''"
  by code_simp

section \<open>Lookups as filters\<close>

lemma tag_matches_split:
  "tag_matches nm crits e =
     (tag_matches nm [] e \<and> list_all (\<lambda>(key, crit). attr_matches (attrs e) key crit) crits)"
  by (cases e) simp_all

lemma map_fst_filter_tag_matches:
  "map fst (filter (\<lambda>(e, sibs). tag_matches nm crits e) (xs :: (node \<times> node list) list)) =
     filter (\<lambda>e. list_all (\<lambda>(key, crit). attr_matches (attrs e) key crit) crits)
       (map fst (filter (\<lambda>(e, sibs). tag_matches nm [] e) xs))"
  by (induction xs) (auto simp: tag_matches_split [of nm crits])

lemma find_all_filter:
  "find_all nm crits root =
     filter (\<lambda>e. list_all (\<lambda>(key, crit). attr_matches (attrs e) key crit) crits)
       (find_all nm [] root)"
  by (simp add: find_all_def find_all_located_def map_fst_filter_tag_matches [of nm crits])

lemma find_tag_first:
  "find_tag nm crits root =
     (case filter (\<lambda>e. list_all (\<lambda>(key, crit). attr_matches (attrs e) key crit) crits)
             (find_all nm [] root) of
        [] \<Rightarrow> None
      | t # _ \<Rightarrow> Some t)"
  by (simp add: find_tag_def find_all_filter [of nm crits])

section \<open>Exceptions\<close>




text \<open>
  C10.  When the detail page is fetched and parsed without an exception and holds no label
  (no \<^verbatim>\<open>span\<close> whose class matches \<^verbatim>\<open>label\<close>, as is the case when no element at all
  has such a class) and no table whose id matches \<^verbatim>\<open>Charges\<close>, \<^verbatim>\<open>get_inmate_details\<close>
  returns the empty mapping; it returns \<^verbatim>\<open>None\<close> exactly when fetching and parsing the
  page raised.
\<close>

theorem details_empty_not_none:
  "(\<forall>soup. http_get s (base_url @ ''/InmateDetail.aspx?InmateID='' @ inmate_id) = Inr soup
        \<and> find_all ''span'' [(''class'', Regex_I [''label''])] soup = []
        \<and> find_tag ''table'' [(''id'', Regex_I [''Charges''])] soup = None
      \<longrightarrow> get_inmate_details s inmate_id = Inr (Some []))
   \<and> (get_inmate_details s inmate_id = Inr None
        \<longleftrightarrow> (\<exists>e. http_get s (base_url @ ''/InmateDetail.aspx?InmateID='' @ inmate_id) = Inl e))
   \<and> (\<forall>soup. (\<forall>(e, sibs)\<in>set (descendants soup).
                  \<not> attr_matches (attrs e) ''class'' (Regex_I [''label'']))
          \<longrightarrow> find_all ''span'' [(''class'', Regex_I [''label''])] soup = [])"
proof (intro conjI allI impI)
  fix soup
  assume "\<forall>(e, sibs)\<in>set (descendants soup).
      \<not> attr_matches (attrs e) ''class'' (Regex_I [''label''])"
  then show "find_all ''span'' [(''class'', Regex_I [''label''])] soup = []"
    by (auto simp: find_all_def find_all_located_def filter_empty_conv
        tag_matches_split [of _ "[(''class'', Regex_I [''label''])]"])
next
  fix soup
  assume a: "http_get s (base_url @ ''/InmateDetail.aspx?InmateID='' @ inmate_id) = Inr soup
        \<and> find_all ''span'' [(''class'', Regex_I [''label''])] soup = []
        \<and> find_tag ''table'' [(''id'', Regex_I [''Charges''])] soup = None"
  then have "find_all_located ''span'' [(''class'', Regex_I [''label''])] soup = []"
    by (simp add: find_all_def)
  with a have "parse_inmate_details soup = []" by (simp add: parse_inmate_details_def)
  with a show "get_inmate_details s inmate_id = Inr (Some [])"
    by (simp add: get_inmate_details_def get_inmate_details_body_def try_except_def)
next
  show "get_inmate_details s inmate_id = Inr None
        \<longleftrightarrow> (\<exists>e. http_get s (base_url @ ''/InmateDetail.aspx?InmateID='' @ inmate_id) = Inl e)"
    by (cases "http_get s (base_url @ ''/InmateDetail.aspx?InmateID='' @ inmate_id)")
       (simp_all add: get_inmate_details_def get_inmate_details_body_def try_except_def)
qed

theorem details_empty_not_none_witness:
  "http_get site_bare (base_url @ ''/InmateDetail.aspx?InmateID='' @ ''42'') = Inr bare_page
   \<and> find_all ''span'' [(''class'', Regex_I [''label''])] bare_page = []
   \<and> find_tag ''table'' [(''id'', Regex_I [''Charges''])] bare_page = None
   \<and> get_inmate_details site_bare ''42'' = Inr (Some [])
   \<and> get_inmate_details site_bare ''42'' \<noteq> Inr None"
proof -
  have g: "\<And>url. http_get site_bare url = Inr bare_page" by (simp add: site_bare_def)
  have d: "\<forall>(e, sibs)\<in>set (descendants bare_page).
      \<not> attr_matches (attrs e) ''class'' (Regex_I [''label''])"
    by code_simp
  have c: "find_tag ''table'' [(''id'', Regex_I [''Charges''])] bare_page = None" by code_simp
  show ?thesis
    using details_empty_not_none [of site_bare "''42''"] g d c by simp
qed

section \<open>Form data\<close>

text \<open>
  C3 (as amended).  For each of the three hidden token inputs: when the search page has no
  such input, the form data has no entry under that name, and neither has the body of the
  POST; when it has one, the entry is the \<^verbatim>\<open>value\<close> attribute of the first such input,
  and the empty string when that input has no \<^verbatim>\<open>value\<close> attribute.  Nothing is raised.
\<close>

theorem form_tokens:
  "(key \<in> {''__VIEWSTATE'', ''__VIEWSTATEGENERATOR'', ''__EVENTVALIDATION''} \<longrightarrow>
     map_of (get_form_data soup) key =
       (case find_tag ''input'' [(''name'', Exact key)] soup of
          None \<Rightarrow> None
        | Some t \<Rightarrow> Some (case map_of (attrs t) ''value'' of Some v \<Rightarrow> v | None \<Rightarrow> ''''))
     \<and> map_of (search_form_data soup last_name first_name booking_number) key =
         map_of (get_form_data soup) key)
   \<and> (http_get s base_url = Inr soup \<longrightarrow>
        search_inmates_body s last_name first_name booking_number =
          (case http_post s (base_url @ ''/SearchResults.aspx'')
                  (search_form_data soup last_name first_name booking_number) of
             Inl e \<Rightarrow> Inl e
           | Inr results_soup \<Rightarrow> Inr (parse_results results_soup)))"
proof (intro impI conjI)
  assume k: "key \<in> {''__VIEWSTATE'', ''__VIEWSTATEGENERATOR'', ''__EVENTVALIDATION''}"
  show "map_of (get_form_data soup) key =
       (case find_tag ''input'' [(''name'', Exact key)] soup of
          None \<Rightarrow> None
        | Some t \<Rightarrow> Some (case map_of (attrs t) ''value'' of Some v \<Rightarrow> v | None \<Rightarrow> ''''))"
    using k by (auto simp: get_form_data_def update_conv' split: option.splits)
  show "map_of (search_form_data soup last_name first_name booking_number) key =
         map_of (get_form_data soup) key"
    using k by (auto simp: search_form_data_def update_conv')
next
  assume "http_get s base_url = Inr soup"
  then show "search_inmates_body s last_name first_name booking_number =
          (case http_post s (base_url @ ''/SearchResults.aspx'')
                  (search_form_data soup last_name first_name booking_number) of
             Inl e \<Rightarrow> Inl e
           | Inr results_soup \<Rightarrow> Inr (parse_results results_soup))"
    by (simp add: search_inmates_body_def Let_def split: sum.splits)
qed

theorem form_tokens_witness:
  "map_of (get_form_data form_page) ''__VIEWSTATE'' = Some ''dDwt''
   \<and> map_of (get_form_data form_page) ''__EVENTVALIDATION'' = Some ''''
   \<and> map_of (get_form_data form_page) ''__VIEWSTATEGENERATOR'' = None
   \<and> map_of (search_form_data form_page ''DOE'' ''J'' '''') ''__VIEWSTATEGENERATOR'' = None
   \<and> search_inmates_body site_form ''DOE'' ''J'' '''' = Inr []"
proof -
  have f1: "find_tag ''input'' [(''name'', Exact ''__VIEWSTATE'')] form_page =
      Some (Tag ''input'' [(''type'', ''hidden''), (''name'', ''__VIEWSTATE''), (''value'', ''dDwt'')] [])"
    by code_simp
  have f2: "find_tag ''input'' [(''name'', Exact ''__EVENTVALIDATION'')] form_page =
      Some (Tag ''input'' [(''type'', ''hidden''), (''name'', ''__EVENTVALIDATION'')] [])"
    by code_simp
  have f3: "find_tag ''input'' [(''name'', Exact ''__VIEWSTATEGENERATOR'')] form_page = None"
    by code_simp
  have g: "http_get site_form base_url = Inr form_page"
    and p: "\<And>url data. http_post site_form url data = Inr bare_page"
    by (simp_all add: site_form_def)
  have e: "parse_results bare_page = []" by code_simp
  show ?thesis
    using form_tokens [of "''__VIEWSTATE''" form_page "''DOE''" "''J''" "''''" site_form]
      form_tokens [of "''__EVENTVALIDATION''" form_page "''DOE''" "''J''" "''''" site_form]
      form_tokens [of "''__VIEWSTATEGENERATOR''" form_page "''DOE''" "''J''" "''''" site_form]
      f1 f2 f3 g p e
    by simp
qed

theorem missing_token_counterexample:
  "find_tag ''input'' [(''name'', Exact ''__VIEWSTATEGENERATOR'')] form_page = None
   \<and> map_of (get_form_data form_page) ''__VIEWSTATEGENERATOR'' \<noteq> Some ''''
   \<and> search_form_data form_page ''DOE'' ''J'' '''' =
       [(''__VIEWSTATE'', ''dDwt''), (''__EVENTVALIDATION'', ''''), (''txtLastName'', ''DOE''),
        (''txtFirstName'', ''J''), (''txtBookingNumber'', ''''), (''btnSearch'', ''Search'')]"
  by code_simp

section \<open>The result rows\<close>



lemma parse_results_None: "results_table soup = None \<Longrightarrow> parse_results soup = []"
  by (simp add: parse_results_def)






section \<open>The identifier in the link\<close>









section \<open>The results table\<close>

lemma take_length_eq: "take (length p) s = p \<longleftrightarrow> (\<exists>v. s = p @ v)"
proof
  assume "take (length p) s = p"
  then have "s = p @ drop (length p) s" by (metis append_take_drop_id)
  then show "\<exists>v. s = p @ v" ..
qed auto

lemma occurs_in_iff: "occurs_in p s \<longleftrightarrow> (\<exists>u v. s = u @ p @ v)"
proof (induction s)
  case Nil
  show ?case by auto
next
  case (Cons c cs)
  have "(\<exists>u v. c # cs = u @ p @ v) \<longleftrightarrow> (\<exists>v. c # cs = p @ v) \<or> (\<exists>u v. cs = u @ p @ v)"
  proof
    assume "\<exists>u v. c # cs = u @ p @ v"
    then obtain u v where e: "c # cs = u @ p @ v" by blast
    show "(\<exists>v. c # cs = p @ v) \<or> (\<exists>u v. cs = u @ p @ v)"
    proof (cases u)
      case Nil
      with e show ?thesis by auto
    next
      case (Cons a u')
      with e have "cs = u' @ p @ v" by simp
      then show ?thesis by blast
    qed
  next
    assume "(\<exists>v. c # cs = p @ v) \<or> (\<exists>u v. cs = u @ p @ v)"
    then show "\<exists>u v. c # cs = u @ p @ v"
    proof
      assume "\<exists>v. c # cs = p @ v"
      then obtain v where "c # cs = [] @ p @ v" by auto
      then show ?thesis by blast
    next
      assume "\<exists>u v. cs = u @ p @ v"
      then obtain u v where "c # cs = (c # u) @ p @ v" by auto
      then show ?thesis by blast
    qed
  qed
  then show ?case using Cons.IH take_length_eq [of p "c # cs"] by simp
qed

lemma occurs_in_append_sep:
  assumes "occurs_in p (a @ c # b)" and "c \<notin> set p" and "p \<noteq> []"
  shows "occurs_in p a \<or> occurs_in p b"
proof -
  from assms(1) obtain u v where e: "a @ c # b = u @ p @ v" by (auto simp: occurs_in_iff)
  then consider us where "a = u @ us" "us @ c # b = p @ v"
    | us where "a @ us = u" "c # b = us @ p @ v"
    by (auto simp: append_eq_append_conv2)
  then show ?thesis
  proof cases
    case 1
    from 1(2) consider ws where "us = p @ ws" "ws @ c # b = v"
      | ws where "us @ ws = p" "c # b = ws @ v"
      by (auto simp: append_eq_append_conv2)
    then show ?thesis
    proof cases
      case 1
      with \<open>a = u @ us\<close> have "a = u @ p @ ws" by simp
      then show ?thesis by (auto simp: occurs_in_iff)
    next
      case 2
      show ?thesis
      proof (cases ws)
        case Nil
        with 2 \<open>a = u @ us\<close> have "a = u @ p @ []" by simp
        then show ?thesis unfolding occurs_in_iff by blast
      next
        case (Cons w ws')
        with 2 have "c \<in> set p" by auto
        with assms(2) show ?thesis by simp
      qed
    qed
  next
    case 2
    show ?thesis
    proof (cases us)
      case Nil
      with 2 assms(3) have "c \<in> set p" by (cases p) auto
      with assms(2) show ?thesis by simp
    next
      case (Cons w us')
      with 2 have "b = us' @ p @ v" by simp
      then show ?thesis unfolding occurs_in_iff by blast
    qed
  qed
qed

lemma lower_space: "lower CHR '' '' = CHR '' ''"
  by (simp add: lower_def)

lemma occurs_in_join:
  assumes "CHR '' '' \<notin> set p" and "p \<noteq> []"
  shows "occurs_in p (map lower (join '' '' ws)) \<Longrightarrow> list_ex (\<lambda>w. occurs_in p (map lower w)) ws"
proof (induction "'' ''" ws rule: join.induct)
  case 1
  then show ?case using assms(2) by simp
next
  case (2 x)
  then show ?case by simp
next
  case (3 x y ys)
  then have "occurs_in p (map lower x @ CHR '' '' # map lower (join '' '' (y # ys)))"
    by (simp add: lower_space)
  then have "occurs_in p (map lower x) \<or> occurs_in p (map lower (join '' '' (y # ys)))"
    using assms by (rule occurs_in_append_sep)
  then show ?case using 3 by auto
qed

lemma attr_matches_id:
  "attr_matches as ''id'' (Regex_I [p]) =
     (case map_of as ''id'' of None \<Rightarrow> False | Some v \<Rightarrow> contains_ci p v)"
  by (simp add: attr_matches_def contains_ci_def split: option.splits)

lemma class_token_or_joined:
  assumes "CHR '' '' \<notin> set (map lower p)" and "p \<noteq> []"
  shows "(list_ex (\<lambda>item. occurs_in (map lower p) (map lower item)) ws
          \<or> occurs_in (map lower p) (map lower (join '' '' ws)))
         = list_ex (contains_ci p) ws"
proof -
  have c: "contains_ci p = (\<lambda>w. occurs_in (map lower p) (map lower w))"
    by (simp add: fun_eq_iff contains_ci_def)
  have "map lower p \<noteq> []" using assms(2) by simp
  with assms(1) have "occurs_in (map lower p) (map lower (join '' '' ws)) \<Longrightarrow>
      list_ex (\<lambda>w. occurs_in (map lower p) (map lower w)) ws"
    by (rule occurs_in_join)
  then show ?thesis unfolding c by blast
qed

lemma attr_matches_class:
  "attr_matches as ''class'' (Regex_I [''grid'', ''result'']) =
     (case map_of as ''class'' of
        None \<Rightarrow> False
      | Some v \<Rightarrow> list_ex (contains_ci ''grid'') (split_ws v)
                  \<or> list_ex (contains_ci ''result'') (split_ws v))"
proof (cases "map_of as ''class''")
  case None
  then show ?thesis by (simp add: attr_matches_def)
next
  case (Some v)
  have g: "CHR '' '' \<notin> set (map lower ''grid'')" "''grid'' \<noteq> []"
    and r: "CHR '' '' \<notin> set (map lower ''result'')" "''result'' \<noteq> []"
    by (simp_all add: lower_def)
  have main: "attr_matches as ''class'' (Regex_I [''grid'', ''result'']) =
      ((list_ex (\<lambda>item. occurs_in (map lower ''grid'') (map lower item)) (split_ws v)
          \<or> occurs_in (map lower ''grid'') (map lower (join '' '' (split_ws v))))
       \<or> (list_ex (\<lambda>item. occurs_in (map lower ''result'') (map lower item)) (split_ws v)
          \<or> occurs_in (map lower ''result'') (map lower (join '' '' (split_ws v)))))"
    using Some unfolding attr_matches_def
    by (simp only: option.case matches.simps list_ex_iff list.set if_True refl) blast
  show ?thesis
    unfolding main class_token_or_joined [OF g, of "split_ws v"]
      class_token_or_joined [OF r, of "split_ws v"]
    using Some by simp
qed

lemma results_table_filters:
  "results_table soup =
     (case filter (id_has ''gridview'') (find_all ''table'' [] soup) of
        t # _ \<Rightarrow> Some t
      | [] \<Rightarrow>
          (case filter (\<lambda>t. class_has ''grid'' t \<or> class_has ''result'' t)
                  (find_all ''table'' [] soup) of
             t # _ \<Rightarrow> Some t
           | [] \<Rightarrow> None))"
proof -
  have c: "\<And>v. contains_ci ''GridView'' v = contains_ci ''gridview'' v"
    by (simp add: contains_ci_def lower_def)
  have i: "(\<lambda>e. list_all (\<lambda>(key, crit). attr_matches (attrs e) key crit)
              [(''id'', Regex_I [''GridView''])]) = id_has ''gridview''"
    by (simp add: fun_eq_iff attr_matches_id id_has_def c split: option.splits)
  have k: "(\<lambda>e. list_all (\<lambda>(key, crit). attr_matches (attrs e) key crit)
              [(''class'', Regex_I [''grid'', ''result''])])
           = (\<lambda>t. class_has ''grid'' t \<or> class_has ''result'' t)"
    by (auto simp: fun_eq_iff attr_matches_class class_has_def split: option.splits)
  show ?thesis
    unfolding results_table_def find_tag_first i k by (simp split: list.splits)
qed

text \<open>
  C2 (as amended).  The results table is the first table, in document order, whose id
  contains \<^verbatim>\<open>gridview\<close>, letter case ignored; when no table has such an id, it is the
  first table one of whose class tokens contains \<^verbatim>\<open>grid\<close> or \<^verbatim>\<open>result\<close>, letter case
  ignored; when there is no such table either, the search gives the empty list.
\<close>

theorem results_table_lookup:
  "results_table soup =
     (case filter (id_has ''gridview'') (find_all ''table'' [] soup) of
        t # _ \<Rightarrow> Some t
      | [] \<Rightarrow>
          (case filter (\<lambda>t. class_has ''grid'' t \<or> class_has ''result'' t)
                  (find_all ''table'' [] soup) of
             t # _ \<Rightarrow> Some t
           | [] \<Rightarrow> None))
   \<and> (results_table soup = None \<longrightarrow> parse_results soup = [])
   \<and> (\<forall>word v. contains_ci word v \<longleftrightarrow> (\<exists>u w. map lower v = u @ map lower word @ w))"
  using results_table_filters [of soup] parse_results_None [of soup]
  by (simp add: contains_ci_def occurs_in_iff)

theorem results_table_lookup_witness:
  "results_table bare_page = None \<and> parse_results bare_page = []
   \<and> results_table (results_page [doe_row, poe_row]) = Some (grid_table [doe_row, poe_row])
   \<and> results_table class_page =
       Some (Tag ''table'' [(''class'', ''tbl SearchResults'')] [header_row, poe_row])"
proof -
  have b: "find_all ''table'' [] bare_page = []" by code_simp
  have c: "filter (id_has ''gridview'') (find_all ''table'' [] class_page) = []"
    "filter (\<lambda>t. class_has ''grid'' t \<or> class_has ''result'' t) (find_all ''table'' [] class_page)
       = [Tag ''table'' [(''class'', ''tbl SearchResults'')] [header_row, poe_row]]"
    by code_simp+
  have r: "filter (id_has ''gridview'') (find_all ''table'' [] (results_page [doe_row, poe_row]))
     = [grid_table [doe_row, poe_row]]"
    by code_simp
  show ?thesis
    using results_table_lookup [of bare_page] results_table_lookup [of class_page]
      results_table_lookup [of "results_page [doe_row, poe_row]"] b c r
    by simp
qed

theorem grid_id_counterexample:
  "find_tag ''table'' [(''id'', Regex_I [''grid''])] grid_id_page =
     Some (Tag ''table'' [(''id'', ''ResultsGrid'')] [header_row, poe_row])
   \<and> length (find_all ''td'' [] poe_row) = 4
   \<and> results_table grid_id_page = None
   \<and> parse_results grid_id_page = []"
  by code_simp

section \<open>The detail page\<close>


















section \<open>Normalised strings in the records\<close>






















end
